theory Spec2Isabelle
  imports Main "HOL-Library.AList"
begin

section \<open>Python values, errors and dictionaries\<close>

text \<open>
  The script \<^verbatim>\<open>ingest.py\<close> reads newline-delimited JSON files below a root directory
  into a nested dictionary and audits the keys of the records. Every exception the
  script can raise is a value of \<open>error\<close>; a function that may raise returns
  \<open>error + 'a\<close>, with \<open>Inl\<close> for the exception.
\<close>

datatype error =
    FileNotFoundError
  | NotADirectoryError
  | IsADirectoryError
  | TypeError
  | ValueError
  | JSONDecodeError
  | AttributeError
  | KeyError

text \<open>
  What \<^verbatim>\<open>json.loads\<close> returns: \<^verbatim>\<open>None\<close>, a bool, an int, a float, a str, a list or a
  dict. A float is kept by the text Python prints for it; a str is a list of characters.
  A dict keeps its keys in insertion order and has each key once, so it is an
  association list that is only ever extended with \<open>AList.update\<close> (replace the value
  in place if the key is there, append otherwise), as \<^verbatim>\<open>d[k] = v\<close> does.
\<close>

datatype json =
    JNull
  | JBool bool
  | JInt int
  | JFloat string
  | JString string
  | JArray "json list"
  | JObject "(string \<times> json) list"

type_synonym ('k, 'v) dict = "('k \<times> 'v) list"

definition dict_keys :: "('k, 'v) dict \<Rightarrow> 'k list" where
  "dict_keys d = map fst d"

definition dict_get :: "('k, 'v) dict \<Rightarrow> 'k \<Rightarrow> error + 'v" where
  \<comment> \<open>\<^verbatim>\<open>d[k]\<close>\<close>
  "dict_get d k = (case map_of d k of None \<Rightarrow> Inl KeyError | Some v \<Rightarrow> Inr v)"

definition dict_set :: "('k, 'v) dict \<Rightarrow> 'k \<Rightarrow> 'v \<Rightarrow> ('k, 'v) dict" where
  \<comment> \<open>\<^verbatim>\<open>d[k] = v\<close>\<close>
  "dict_set d k v = AList.update k v d"

definition dict_contains :: "'k \<Rightarrow> ('k, 'v) dict \<Rightarrow> bool" where
  \<comment> \<open>\<^verbatim>\<open>k in d\<close>\<close>
  "dict_contains k d = (k \<in> set (dict_keys d))"

text \<open>A record is one decoded line; a file is its list of records; the corpus maps a
  language directory to a mapping from file name to records.\<close>

type_synonym records = "json list"
type_synonym file_map = "(string, records) dict"
type_synonym corpus = "(string, file_map) dict"

section \<open>The file system\<close>

text \<open>
  The file system is read, never written, by the loader. A path names a regular file
  with its text (as \<^verbatim>\<open>open(path)\<close> in text mode delivers it: decoded, line ends
  translated to \<^verbatim>\<open>\n\<close>), a directory with its entries in the order \<^verbatim>\<open>os.listdir\<close>
  enumerates them, or nothing. The empty path never exists.
\<close>

datatype node = File string | Dir "string list"

type_synonym filesystem = "string \<Rightarrow> node option"

definition path_exists :: "filesystem \<Rightarrow> string \<Rightarrow> bool" where
  \<comment> \<open>\<^verbatim>\<open>os.path.exists\<close>\<close>
  "path_exists fs p = (p \<noteq> [] \<and> fs p \<noteq> None)"

definition path_isdir :: "filesystem \<Rightarrow> string \<Rightarrow> bool" where
  \<comment> \<open>\<^verbatim>\<open>os.path.isdir\<close>\<close>
  "path_isdir fs p = (p \<noteq> [] \<and> (case fs p of Some (Dir es) \<Rightarrow> True | _ \<Rightarrow> False))"

definition listdir :: "filesystem \<Rightarrow> string option \<Rightarrow> error + string list" where
  \<comment> \<open>\<^verbatim>\<open>os.listdir\<close>; \<^verbatim>\<open>os.listdir(None)\<close> lists the current directory\<close>
  "listdir fs d =
     (let p = (case d of None \<Rightarrow> ''.'' | Some p \<Rightarrow> p)
      in if p = [] then Inl FileNotFoundError
         else (case fs p of
                 None \<Rightarrow> Inl FileNotFoundError
               | Some (File c) \<Rightarrow> Inl NotADirectoryError
               | Some (Dir es) \<Rightarrow> Inr es))"

definition open_text :: "filesystem \<Rightarrow> string option \<Rightarrow> error + string" where
  \<comment> \<open>\<^verbatim>\<open>open(name)\<close>, read as a whole\<close>
  "open_text fs name =
     (case name of
        None \<Rightarrow> Inl TypeError
      | Some p \<Rightarrow>
          if p = [] then Inl FileNotFoundError
          else (case fs p of
                  None \<Rightarrow> Inl FileNotFoundError
                | Some (Dir es) \<Rightarrow> Inl IsADirectoryError
                | Some (File c) \<Rightarrow> Inr c))"

definition path_join :: "string option \<Rightarrow> string \<Rightarrow> error + string" where
  \<comment> \<open>\<^verbatim>\<open>os.path.join(a, b)\<close> of \<^verbatim>\<open>posixpath\<close>\<close>
  "path_join a b =
     (case a of
        None \<Rightarrow> Inl TypeError
      | Some a \<Rightarrow>
          if b \<noteq> [] \<and> hd b = CHR ''/'' then Inr b
          else if a = [] \<or> last a = CHR ''/'' then Inr (a @ b)
          else Inr (a @ ''/'' @ b))"

definition truthy :: "string option \<Rightarrow> bool" where
  \<comment> \<open>the truth value of an argument that is \<^verbatim>\<open>None\<close> or a str\<close>
  "truthy a = (case a of None \<Rightarrow> False | Some s \<Rightarrow> s \<noteq> [])"

definition endswith :: "string \<Rightarrow> string \<Rightarrow> bool" where
  \<comment> \<open>\<^verbatim>\<open>s.endswith(suf)\<close>\<close>
  "endswith s suf = (length suf \<le> length s \<and> drop (length s - length suf) s = suf)"

text \<open>Iterating over a text file yields its lines, each with its \<^verbatim>\<open>\n\<close>; the last
  line has none when the file does not end in one.\<close>

fun file_lines :: "string \<Rightarrow> string list" where
  "file_lines [] = []"
| "file_lines (c # cs) =
     (if c = CHR 0x0A then [c] # file_lines cs
      else (case file_lines cs of
              [] \<Rightarrow> [[c]]
            | l # ls \<Rightarrow> (c # l) # ls))"

section \<open>The JSON decoder\<close>

text \<open>
  \<^verbatim>\<open>json.loads\<close> belongs to the standard library, not to the script, so every function
  of the loader takes the decoder as its parameter \<open>loads\<close>: \<open>loads l = None\<close> when
  \<^verbatim>\<open>json.loads(l)\<close> raises \<^verbatim>\<open>JSONDecodeError\<close>, \<open>Some v\<close> when it returns \<open>v\<close>. The general
  theorems hold for every decoder.

  To run the loader on concrete files, \<open>json_loads\<close> below follows the standard
  library's scanner (\<^verbatim>\<open>json/decoder.py\<close>, \<^verbatim>\<open>json/scanner.py\<close>) on the part of JSON
  without fractions, exponents, \<^verbatim>\<open>NaN\<close>, \<^verbatim>\<open>Infinity\<close> and \<^verbatim>\<open>\u\<close> escapes, over ASCII
  text; a text with one of these is outside its domain (it answers \<open>None\<close>), and no
  example below contains one. The fuel bounds the nesting depth and the number of
  members; twice the length of the text is never used up.
\<close>

definition json_ws :: "char \<Rightarrow> bool" where
  "json_ws c = (c = CHR '' '' \<or> c = CHR 0x09 \<or> c = CHR 0x0A \<or> c = CHR 0x0D)"

definition skip_ws :: "string \<Rightarrow> string" where
  "skip_ws s = dropWhile json_ws s"

definition next_is :: "char \<Rightarrow> string \<Rightarrow> bool" where
  "next_is c s = (case s of [] \<Rightarrow> False | x # r \<Rightarrow> x = c)"

definition is_digit :: "char \<Rightarrow> bool" where
  "is_digit c = (48 \<le> (of_char c :: nat) \<and> (of_char c :: nat) \<le> 57)"

definition digits_value :: "string \<Rightarrow> nat" where
  "digits_value ds = foldl (\<lambda>n c. 10 * n + (of_char c - 48)) 0 ds"

definition float_follows :: "string \<Rightarrow> bool" where
  \<comment> \<open>the number regex would go on with a fraction or an exponent\<close>
  "float_follows r =
     (case r of
        [] \<Rightarrow> False
      | c # r1 \<Rightarrow>
          if c = CHR ''.'' then (case r1 of [] \<Rightarrow> False | d # r2 \<Rightarrow> is_digit d)
          else if c = CHR ''e'' \<or> c = CHR ''E'' then
            (case r1 of
               [] \<Rightarrow> False
             | d # r2 \<Rightarrow>
                 is_digit d \<or>
                 ((d = CHR ''+'' \<or> d = CHR ''-'') \<and> (case r2 of [] \<Rightarrow> False | d2 # r3 \<Rightarrow> is_digit d2)))
          else False)"

definition scan_number :: "string \<Rightarrow> (json \<times> string) option" where
  \<comment> \<open>\<^verbatim>\<open>(-?(?:0|[1-9][0-9]*))\<close>, an int when nothing of a float follows\<close>
  "scan_number s =
     (let neg = next_is CHR ''-'' s;
          s1 = (if neg then tl s else s);
          ds = (if next_is CHR ''0'' s1 then ''0'' else takeWhile is_digit s1);
          r = drop (length ds) s1
      in if ds = [] \<or> float_follows r then None
         else Some (JInt (if neg then - int (digits_value ds) else int (digits_value ds)), r))"

definition unescape :: "char \<Rightarrow> char option" where
  "unescape e =
     (if e = CHR 0x22 then Some (CHR 0x22)
      else if e = CHR 0x5C then Some (CHR 0x5C)
      else if e = CHR ''/'' then Some (CHR ''/'')
      else if e = CHR ''b'' then Some (CHR 0x08)
      else if e = CHR ''f'' then Some (CHR 0x0C)
      else if e = CHR ''n'' then Some (CHR 0x0A)
      else if e = CHR ''r'' then Some (CHR 0x0D)
      else if e = CHR ''t'' then Some (CHR 0x09)
      else None)"

fun scan_string :: "string \<Rightarrow> (string \<times> string) option" where
  \<comment> \<open>\<^verbatim>\<open>scanstring\<close> (strict), from just after the opening quote\<close>
  "scan_string [] = None"
| "scan_string (c # cs) =
     (if c = CHR 0x22 then Some ([], cs)
      else if c = CHR 0x5C then
        (case cs of
           [] \<Rightarrow> None
         | e # cs' \<Rightarrow>
             (case unescape e of
                None \<Rightarrow> None
              | Some x \<Rightarrow>
                  (case scan_string cs' of None \<Rightarrow> None | Some (t, r) \<Rightarrow> Some (x # t, r))))
      else if (of_char c :: nat) < 32 then None
      else (case scan_string cs of None \<Rightarrow> None | Some (t, r) \<Rightarrow> Some (c # t, r)))"

fun scan_value :: "nat \<Rightarrow> string \<Rightarrow> (json \<times> string) option"
  and scan_elems :: "nat \<Rightarrow> json list \<Rightarrow> string \<Rightarrow> (json \<times> string) option"
  and scan_members :: "nat \<Rightarrow> (string \<times> json) list \<Rightarrow> string \<Rightarrow> (json \<times> string) option"
where
  "scan_value 0 s = None"
| "scan_value (Suc n) s =
     (if next_is (CHR 0x22) s then
        (case scan_string (tl s) of None \<Rightarrow> None | Some (t, r) \<Rightarrow> Some (JString t, r))
      else if next_is CHR ''['' s then
        (let r = skip_ws (tl s)
         in if next_is CHR '']'' r then Some (JArray [], tl r) else scan_elems n [] r)
      else if next_is CHR ''{'' s then
        (let r = skip_ws (tl s)
         in if next_is CHR ''}'' r then Some (JObject [], tl r)
            else if next_is (CHR 0x22) r then scan_members n [] (tl r)
            else None)
      else if take 4 s = ''null'' then Some (JNull, drop 4 s)
      else if take 4 s = ''true'' then Some (JBool True, drop 4 s)
      else if take 5 s = ''false'' then Some (JBool False, drop 5 s)
      else scan_number s)"
| "scan_elems 0 acc s = None"
| "scan_elems (Suc n) acc s =
     (case scan_value n s of
        None \<Rightarrow> None
      | Some (v, r0) \<Rightarrow>
          (let r = skip_ws r0
           in if next_is CHR '']'' r then Some (JArray (acc @ [v]), tl r)
              else if next_is CHR '','' r then scan_elems n (acc @ [v]) (skip_ws (tl r))
              else None))"
| "scan_members 0 acc s = None"
| "scan_members (Suc n) acc s =
     (case scan_string s of
        None \<Rightarrow> None
      | Some (k, r0) \<Rightarrow>
          (let r1 = skip_ws r0
           in if \<not> next_is CHR '':'' r1 then None
              else
                (case scan_value n (skip_ws (tl r1)) of
                   None \<Rightarrow> None
                 | Some (v, r2) \<Rightarrow>
                     (let r3 = skip_ws r2
                      in if next_is CHR ''}'' r3 then Some (JObject (AList.update k v acc), tl r3)
                         else if next_is CHR '','' r3 then
                           (let r4 = skip_ws (tl r3)
                            in if next_is (CHR 0x22) r4
                               then scan_members n (AList.update k v acc) (tl r4)
                               else None)
                         else None))))"

definition json_loads :: "string \<Rightarrow> json option" where
  "json_loads s =
     (case scan_value (2 * length s + 2) (skip_ws s) of
        None \<Rightarrow> None
      | Some (v, r) \<Rightarrow> if skip_ws r = [] then Some v else None)"

section \<open>The file loader\<close>

text \<open>\<^verbatim>\<open>[json.loads(line) for line in json_in]\<close>: every line goes to the decoder, the
  first line it rejects ends the comprehension with its exception.\<close>

fun decode_lines :: "(string \<Rightarrow> json option) \<Rightarrow> string list \<Rightarrow> error + records" where
  "decode_lines loads [] = Inr []"
| "decode_lines loads (l # ls) =
     (case loads l of
        None \<Rightarrow> Inl JSONDecodeError
      | Some v \<Rightarrow>
          (case decode_lines loads ls of
             Inl e \<Rightarrow> Inl e
           | Inr vs \<Rightarrow> Inr (v # vs)))"

definition load_json_file ::
  "(string \<Rightarrow> json option) \<Rightarrow> filesystem \<Rightarrow> string option \<Rightarrow> error + records" where
  "load_json_file loads fs json_filename =
     (if truthy json_filename \<and> \<not> path_exists fs (the json_filename)
      then Inl FileNotFoundError
      else (case open_text fs json_filename of
              Inl e \<Rightarrow> Inl e
            | Inr c \<Rightarrow> decode_lines loads (file_lines c)))"


text \<open>
  What the script prints, in order, and a mark at each call of \<open>load_dir\<close> by the
  directory walker, carrying the name being walked (the mark is not output: it records
  the call, so that the number of loads of a name can be stated). The progress bar of
  \<^verbatim>\<open>tqdm\<close> goes to the standard error stream and does not change what is iterated.
\<close>

datatype event = Stdout string | Load_dir_called string

definition py_str :: "string option \<Rightarrow> string" where
  \<comment> \<open>how \<^verbatim>\<open>print\<close> and an f-string show \<^verbatim>\<open>None\<close> or a str\<close>
  "py_str a = (case a of None \<Rightarrow> ''None'' | Some s \<Rightarrow> s)"

definition py_bool :: "bool \<Rightarrow> string" where
  "py_bool b = (if b then ''True'' else ''False'')"

fun py_nat :: "nat \<Rightarrow> string" where
  "py_nat n =
     (if n < 10 then [''0123456789'' ! n]
      else py_nat (n div 10) @ [''0123456789'' ! (n mod 10)])"

declare py_nat.simps [simp del]

text \<open>
  The dictionary comprehension of \<open>load_dir\<close> over \<^verbatim>\<open>enumerate(os.listdir(data_dir))\<close>:
  the index \<open>k\<close> counts every entry of the directory, the condition is tested first, then
  the key and the value are computed and stored. \<open>n_files\<close> is \<^verbatim>\<open>None\<close> or an int.
\<close>

fun load_entries ::
  "(string \<Rightarrow> json option) \<Rightarrow> filesystem \<Rightarrow> string option \<Rightarrow> int option \<Rightarrow>
   (nat \<times> string) list \<Rightarrow> file_map \<Rightarrow> error + file_map" where
  "load_entries loads fs data_dir n_files [] acc = Inr acc"
| "load_entries loads fs data_dir n_files ((k, fname) # rest) acc =
     (if endswith fname ''.jsonl'' \<and> (case n_files of None \<Rightarrow> True | Some n \<Rightarrow> int k < n) then
        (case path_join data_dir fname of
           Inl e \<Rightarrow> Inl e
         | Inr p \<Rightarrow>
             (case load_json_file loads fs (Some p) of
                Inl e \<Rightarrow> Inl e
              | Inr recs \<Rightarrow> load_entries loads fs data_dir n_files rest (dict_set acc fname recs)))
      else load_entries loads fs data_dir n_files rest acc)"

definition load_dir ::
  "(string \<Rightarrow> json option) \<Rightarrow> filesystem \<Rightarrow> string option \<Rightarrow> int option \<Rightarrow>
   event list \<times> (error + file_map)" where
  "load_dir loads fs data_dir n_files =
     ([Stdout (py_str data_dir)],
      if truthy data_dir \<and> \<not> path_exists fs (the data_dir) then Inl FileNotFoundError
      else (case listdir fs data_dir of
              Inl e \<Rightarrow> Inl e
            | Inr entries \<Rightarrow> load_entries loads fs data_dir n_files (enumerate 0 entries) []))"

section \<open>The directory walker\<close>

text \<open>What the caller may pass as \<open>dir_lang_options\<close>: \<^verbatim>\<open>None\<close> (the default), a str, a
  tuple or a list; the items are directory names.\<close>

datatype lang_options =
    OptNone
  | OptStr string
  | OptTuple "string list"
  | OptList "string list"

definition opt_truthy :: "lang_options \<Rightarrow> bool" where
  "opt_truthy v =
     (case v of
        OptNone \<Rightarrow> False
      | OptStr s \<Rightarrow> s \<noteq> []
      | OptTuple xs \<Rightarrow> xs \<noteq> []
      | OptList xs \<Rightarrow> xs \<noteq> [])"

definition opt_is_list :: "lang_options \<Rightarrow> bool" where
  \<comment> \<open>\<^verbatim>\<open>isinstance(v, list)\<close>\<close>
  "opt_is_list v = (case v of OptList xs \<Rightarrow> True | _ \<Rightarrow> False)"

definition opt_items :: "lang_options \<Rightarrow> string list" where
  "opt_items v = (case v of OptList xs \<Rightarrow> xs | OptTuple xs \<Rightarrow> xs | _ \<Rightarrow> [])"

text \<open>The lines the walker prints.\<close>

definition checking_msg :: "string \<Rightarrow> bool \<Rightarrow> bool \<Rightarrow> string" where
  "checking_msg dirlang langdir_exists langdir_isdir =
     ''Checking directory: '' @ dirlang @ '' (Exists: '' @ py_bool langdir_exists
       @ '', IsDir: '' @ py_bool langdir_isdir @ '')''"

definition loading_msg :: "string \<Rightarrow> string" where
  "loading_msg dirlang = ''Loading data from '' @ dirlang @ ''...''"

definition absent_msg :: "string \<Rightarrow> string" where
  "absent_msg dirlang = ''Directory '' @ dirlang @ '' does not exist or is not a directory.''"

definition summary_msg :: "corpus \<Rightarrow> string" where
  "summary_msg loaded_data =
     ''Loaded data: '' @ py_nat (length loaded_data) @ '' languages with ''
       @ py_nat (sum_list (map (\<lambda>v. length v) (map snd loaded_data))) @ '' files.''"

definition done_msg :: "string option \<Rightarrow> string" where
  "done_msg data_dir = ''Data loaded successfully from '' @ py_str data_dir @ ''.''"

text \<open>One turn of the loop over \<open>dir_lang_options\<close>.\<close>

definition walk_step ::
  "(string \<Rightarrow> json option) \<Rightarrow> filesystem \<Rightarrow> string option \<Rightarrow> int option \<Rightarrow>
   string \<Rightarrow> corpus \<Rightarrow> event list \<times> (error + corpus)" where
  "walk_step loads fs data_dir n_files lang_dir loaded_data =
     (let ld1 = (if \<not> dict_contains lang_dir loaded_data
                 then dict_set loaded_data lang_dir [] else loaded_data)
      in case path_join data_dir lang_dir of
           Inl e \<Rightarrow> ([], Inl e)
         | Inr dirlang \<Rightarrow>
             (let langdir_exists = path_exists fs dirlang;
                  langdir_isdir = path_isdir fs dirlang;
                  out1 = [Stdout (checking_msg dirlang langdir_exists langdir_isdir)]
              in if langdir_exists \<and> langdir_isdir then
                   (let out2 = out1 @ [Stdout (loading_msg dirlang)];
                        ld2 = (if \<not> dict_contains lang_dir ld1
                               then dict_set ld1 lang_dir [] else ld1)
                    in case dict_get ld2 lang_dir of
                         Inl e \<Rightarrow> (out2, Inl e)
                       | Inr cur \<Rightarrow>
                           if length cur = 0 then
                             (case load_dir loads fs (Some dirlang) n_files of
                                (out3, r) \<Rightarrow>
                                  (out2 @ [Load_dir_called lang_dir] @ out3,
                                   case r of
                                     Inl e \<Rightarrow> Inl e
                                   | Inr d \<Rightarrow> Inr (dict_set ld2 lang_dir d)))
                           else (out2, Inr ld2))
                 else (out1 @ [Stdout (absent_msg dirlang)], Inr ld1)))"

fun walk ::
  "(string \<Rightarrow> json option) \<Rightarrow> filesystem \<Rightarrow> string option \<Rightarrow> int option \<Rightarrow>
   string list \<Rightarrow> corpus \<Rightarrow> event list \<times> (error + corpus)" where
  "walk loads fs data_dir n_files [] loaded_data = ([], Inr loaded_data)"
| "walk loads fs data_dir n_files (lang_dir # rest) loaded_data =
     (case walk_step loads fs data_dir n_files lang_dir loaded_data of
        (out, Inl e) \<Rightarrow> (out, Inl e)
      | (out, Inr ld) \<Rightarrow>
          (case walk loads fs data_dir n_files rest ld of
             (out', r) \<Rightarrow> (out @ out', r)))"

definition load_all_data ::
  "(string \<Rightarrow> json option) \<Rightarrow> filesystem \<Rightarrow> string option \<Rightarrow> lang_options \<Rightarrow> int option \<Rightarrow>
   event list \<times> (error + corpus)" where
  "load_all_data loads fs data_dir dir_lang_options n_files =
     (if \<not> truthy data_dir \<or> \<not> path_exists fs (the data_dir) then ([], Inl FileNotFoundError)
      else if \<not> opt_truthy dir_lang_options \<or> \<not> opt_is_list dir_lang_options
      then ([], Inl ValueError)
      else
        (case walk loads fs data_dir n_files (opt_items dir_lang_options) [] of
           (out, Inl e) \<Rightarrow> (out, Inl e)
         | (out, Inr loaded_data) \<Rightarrow>
             (out @ [Stdout (summary_msg loaded_data), Stdout (done_msg data_dir)],
              Inr loaded_data)))"

section \<open>The key auditor\<close>

text \<open>
  \<^verbatim>\<open>entry.keys()\<close> exists on a dict only; on any other decoded value the attribute lookup
  raises. A \<^verbatim>\<open>for\<close> loop over a list threads its state and stops at the first exception.
  Both passes of \<open>identify_missing_keys\<close> are the same three nested loops with another
  body. The two \<^verbatim>\<open>print\<close> calls show the sets in the hash order of the run and are left
  out.
\<close>

definition entry_keys :: "json \<Rightarrow> error + string list" where
  "entry_keys entry = (case entry of JObject kvs \<Rightarrow> Inr (dict_keys kvs) | _ \<Rightarrow> Inl AttributeError)"

fun for_each :: "'a list \<Rightarrow> ('a \<Rightarrow> 's \<Rightarrow> error + 's) \<Rightarrow> 's \<Rightarrow> error + 's" where
  "for_each [] body s = Inr s"
| "for_each (x # xs) body s =
     (case body x s of
        Inl e \<Rightarrow> Inl e
      | Inr s' \<Rightarrow> for_each xs body s')"

definition for_each_entry :: "corpus \<Rightarrow> (json \<Rightarrow> 's \<Rightarrow> error + 's) \<Rightarrow> 's \<Rightarrow> error + 's" where
  "for_each_entry loaded_data body s0 =
     for_each (dict_keys loaded_data)
       (\<lambda>lang s1.
          case dict_get loaded_data lang of
            Inl e \<Rightarrow> Inl e
          | Inr files \<Rightarrow>
              for_each (dict_keys files)
                (\<lambda>filename s2.
                   case dict_get files filename of
                     Inl e \<Rightarrow> Inl e
                   | Inr entries \<Rightarrow> for_each entries body s2)
                s1)
       s0"

definition identify_missing_keys :: "corpus \<Rightarrow> error + (string set \<times> string set)" where
  "identify_missing_keys loaded_data =
     (case for_each_entry loaded_data
             (\<lambda>entry set_of_keys.
                case entry_keys entry of
                  Inl e \<Rightarrow> Inl e
                | Inr ks \<Rightarrow> Inr (set_of_keys \<union> set ks))
             {} of
        Inl e \<Rightarrow> Inl e
      | Inr set_of_keys \<Rightarrow>
          (case for_each_entry loaded_data
                  (\<lambda>entry missing_keys.
                     case entry_keys entry of
                       Inl e \<Rightarrow> Inl e
                     | Inr ks \<Rightarrow>
                         Inr (missing_keys \<union> Set.filter (\<lambda>key. key \<notin> set ks) set_of_keys))
                  {} of
             Inl e \<Rightarrow> Inl e
           | Inr missing_keys \<Rightarrow> Inr (set_of_keys, missing_keys)))"

section \<open>Notions the properties are stated with\<close>

text \<open>
  The records of a corpus are the records of all its files in all its languages. A corpus
  is well formed when no dictionary in it lists a key twice, which holds of every Python
  dict. The keys of a record are the keys of the decoded object.
\<close>

definition corpus_entries :: "corpus \<Rightarrow> json list" where
  "corpus_entries loaded_data = concat (map snd (concat (map snd loaded_data)))"

definition is_object :: "json \<Rightarrow> bool" where
  "is_object e = (case e of JObject kvs \<Rightarrow> True | _ \<Rightarrow> False)"

definition keys_of :: "json \<Rightarrow> string set" where
  "keys_of e = (case e of JObject kvs \<Rightarrow> set (dict_keys kvs) | _ \<Rightarrow> {})"

definition wf_corpus :: "corpus \<Rightarrow> bool" where
  "wf_corpus loaded_data =
     (distinct (dict_keys loaded_data)
      \<and> list_all (\<lambda>files. distinct (dict_keys files)) (map snd loaded_data))"

text \<open>
  For a root directory \<open>dd\<close> and a name \<open>n\<close> of \<open>dir_lang_options\<close>: the path
  \<^verbatim>\<open>os.path.join(dd, n)\<close> the walker checks, and whether it passes both checks.
  \<open>unloaded\<close> says that the walker's mapping has nothing yet for a name (no entry, or an
  empty one), and \<open>entry_after\<close> is the entry one turn of the loop leaves for the name.
\<close>

definition lang_path :: "string \<Rightarrow> string \<Rightarrow> string" where
  "lang_path dd n = (case path_join (Some dd) n of Inr q \<Rightarrow> q | Inl e \<Rightarrow> [])"

definition is_lang_dir :: "filesystem \<Rightarrow> string \<Rightarrow> string \<Rightarrow> bool" where
  "is_lang_dir fs dd n = (path_exists fs (lang_path dd n) \<and> path_isdir fs (lang_path dd n))"

definition unloaded :: "file_map option \<Rightarrow> bool" where
  "unloaded cur = (case cur of None \<Rightarrow> True | Some c \<Rightarrow> c = [])"

definition entry_after ::
  "(string \<Rightarrow> json option) \<Rightarrow> filesystem \<Rightarrow> string \<Rightarrow> int option \<Rightarrow> string \<Rightarrow>
   file_map option \<Rightarrow> file_map" where
  "entry_after loads fs dd nf n cur =
     (if is_lang_dir fs dd n \<and> unloaded cur
      then (case snd (load_dir loads fs (Some (lang_path dd n)) nf) of Inr d \<Rightarrow> d | Inl e \<Rightarrow> [])
      else (case cur of None \<Rightarrow> [] | Some c \<Rightarrow> c))"

section \<open>A sample data directory\<close>

text \<open>
  A small tree to run the loader on: \<^verbatim>\<open>data/en\<close> holds a text file and two record files,
  \<^verbatim>\<open>data/de\<close> holds no record file, \<^verbatim>\<open>data/fr\<close> is missing. \<^verbatim>\<open>data/bad.jsonl\<close> has a line
  cut short and \<^verbatim>\<open>data/gap.jsonl\<close> has an empty line between two records.
\<close>

definition en_a_text :: string where
  \<open>en_a_text = ''{"id": 1, "title": "A"}\<newline>{"title": "B"}\<newline>''\<close>

definition en_b_text :: string where
  \<open>en_b_text = ''{"id": 3, "title": "C"}\<newline>''\<close>

definition bad_text :: string where
  \<open>bad_text = ''{"id": 1}\<newline>{"id": \<newline>''\<close>

definition gap_text :: string where
  \<open>gap_text = ''{"id": 1}\<newline>\<newline>{"id": 2}\<newline>''\<close>

definition sample_fs :: filesystem where
  "sample_fs =
     [''data'' \<mapsto> Dir [''en'', ''de'', ''bad.jsonl'', ''gap.jsonl''],
      ''data/en'' \<mapsto> Dir [''notes.txt'', ''a.jsonl'', ''b.jsonl''],
      ''data/en/notes.txt'' \<mapsto> File ''hello'',
      ''data/en/a.jsonl'' \<mapsto> File en_a_text,
      ''data/en/b.jsonl'' \<mapsto> File en_b_text,
      ''data/de'' \<mapsto> Dir [''readme.md''],
      ''data/de/readme.md'' \<mapsto> File ''leer'',
      ''data/bad.jsonl'' \<mapsto> File bad_text,
      ''data/gap.jsonl'' \<mapsto> File gap_text]"

definition en_a_records :: records where
  "en_a_records =
     [JObject [(''id'', JInt 1), (''title'', JString ''A'')], JObject [(''title'', JString ''B'')]]"

definition en_b_records :: records where
  "en_b_records = [JObject [(''id'', JInt 3), (''title'', JString ''C'')]]"

definition sample_corpus :: corpus where
  "sample_corpus =
     [(''en'', [(''a.jsonl'', en_a_records), (''b.jsonl'', en_b_records)]), (''fr'', [])]"

section \<open>Properties of the file loader\<close>

lemma decode_lines_reject:
  "l \<in> set ls \<Longrightarrow> loads l = None \<Longrightarrow> decode_lines loads ls = Inl JSONDecodeError"
  by (induction ls) (auto split: option.splits sum.splits)

lemma decode_lines_accept:
  "\<forall>l\<in>set ls. loads l \<noteq> None \<Longrightarrow> decode_lines loads ls = Inr (map (\<lambda>l. the (loads l)) ls)"
  by (induction ls) (auto split: option.splits sum.splits)

lemma concat_file_lines: "concat (file_lines c) = c"
  by (induction c) (auto split: list.splits)

lemma load_json_file_existing:
  "fs p = Some (File c) \<Longrightarrow> p \<noteq> [] \<Longrightarrow>
   load_json_file loads fs (Some p) = decode_lines loads (file_lines c)"
  by (simp add: load_json_file_def truthy_def path_exists_def open_text_def)

lemma load_entries_skip:
  "\<forall>e\<in>set (map snd xs). \<not> endswith e ''.jsonl'' \<Longrightarrow>
   load_entries loads fs data_dir n_files xs acc = Inr acc"
  by (induction xs) auto

text \<open>The decoder on the lines of the sample files.\<close>

lemma json_loads_cut_line: \<open>json_loads ''{"id": \<newline>'' = None\<close>
  by code_simp

lemma json_loads_id_1: \<open>json_loads ''{"id": 1}\<newline>'' = Some (JObject [(''id'', JInt 1)])\<close>
  by code_simp

lemma file_lines_bad_text: \<open>file_lines bad_text = [''{"id": 1}\<newline>'', ''{"id": \<newline>'']\<close>
  by (simp add: bad_text_def)

lemma json_loads_empty_line: \<open>json_loads ''\<newline>'' = None\<close>
  by code_simp

lemma json_loads_id_2: \<open>json_loads ''{"id": 2}\<newline>'' = Some (JObject [(''id'', JInt 2)])\<close>
  by code_simp

lemma json_loads_a1:
  \<open>json_loads ''{"id": 1, "title": "A"}\<newline>''
     = Some (JObject [(''id'', JInt 1), (''title'', JString ''A'')])\<close>
  by code_simp

lemma json_loads_a2: \<open>json_loads ''{"title": "B"}\<newline>'' = Some (JObject [(''title'', JString ''B'')])\<close>
  by code_simp

lemma json_loads_b1:
  \<open>json_loads ''{"id": 3, "title": "C"}\<newline>''
     = Some (JObject [(''id'', JInt 3), (''title'', JString ''C'')])\<close>
  by code_simp

lemma file_lines_gap_text:
  \<open>file_lines gap_text = [''{"id": 1}\<newline>'', ''\<newline>'', ''{"id": 2}\<newline>'']\<close>
  by (simp add: gap_text_def)

lemma file_lines_en_a_text:
  \<open>file_lines en_a_text = [''{"id": 1, "title": "A"}\<newline>'', ''{"title": "B"}\<newline>'']\<close>
  by (simp add: en_a_text_def)

text \<open>The loader on the sample directory \<^verbatim>\<open>data/en\<close>.\<close>

lemma load_en_a: "load_json_file json_loads sample_fs (Some ''data/en/a.jsonl'') = Inr en_a_records"
proof -
  have "sample_fs ''data/en/a.jsonl'' = Some (File en_a_text)"
    by (simp add: sample_fs_def)
  then have "load_json_file json_loads sample_fs (Some ''data/en/a.jsonl'')
               = decode_lines json_loads (file_lines en_a_text)"
    by (simp add: load_json_file_existing)
  also have "\<dots> = Inr en_a_records"
    by (simp add: file_lines_en_a_text json_loads_a1 json_loads_a2 en_a_records_def)
  finally show ?thesis .
qed

lemma load_en_b: "load_json_file json_loads sample_fs (Some ''data/en/b.jsonl'') = Inr en_b_records"
proof -
  have "sample_fs ''data/en/b.jsonl'' = Some (File en_b_text)"
    by (simp add: sample_fs_def)
  then have "load_json_file json_loads sample_fs (Some ''data/en/b.jsonl'')
               = decode_lines json_loads (file_lines en_b_text)"
    by (simp add: load_json_file_existing)
  also have "\<dots> = Inr en_b_records"
    by (simp add: en_b_text_def json_loads_b1 en_b_records_def)
  finally show ?thesis .
qed

lemma listdir_en:
  "listdir sample_fs (Some ''data/en'') = Inr [''notes.txt'', ''a.jsonl'', ''b.jsonl'']"
  by (simp add: listdir_def sample_fs_def)

lemma exists_en: "path_exists sample_fs ''data/en''"
  by (simp add: path_exists_def sample_fs_def)

lemma join_en_a: "path_join (Some ''data/en'') ''a.jsonl'' = Inr ''data/en/a.jsonl''"
  by (simp add: path_join_def)

lemma join_en_b: "path_join (Some ''data/en'') ''b.jsonl'' = Inr ''data/en/b.jsonl''"
  by (simp add: path_join_def)

lemma load_dir_en:
  "snd (load_dir json_loads sample_fs (Some ''data/en'') n_files) =
     Inr ((if n_files = None \<or> 1 < the n_files then [(''a.jsonl'', en_a_records)] else [])
          @ (if n_files = None \<or> 2 < the n_files then [(''b.jsonl'', en_b_records)] else []))"
  by (cases n_files)
     (simp_all add: load_dir_def truthy_def exists_en listdir_en enumerate_simps endswith_def
       join_en_a join_en_b load_en_a load_en_b dict_set_def)

text \<open>
  C3. When some line of an existing file is not valid JSON, \<open>load_json_file\<close> raises the
  decoder's parse error: it returns no records at all, so the line is not skipped.
\<close>

theorem load_json_file_malformed_line:
  assumes "fs p = Some (File c)" and "p \<noteq> []"
    and "l \<in> set (file_lines c)" and "loads l = None"
  shows "load_json_file loads fs (Some p) = Inl JSONDecodeError"
  using assms by (simp add: load_json_file_existing decode_lines_reject)

theorem load_json_file_malformed_line_witness:
  \<open>sample_fs ''data/bad.jsonl'' = Some (File bad_text) \<and> ''data/bad.jsonl'' \<noteq> []
   \<and> ''{"id": \<newline>'' \<in> set (file_lines bad_text)
   \<and> json_loads ''{"id": \<newline>'' = None
   \<and> load_json_file json_loads sample_fs (Some ''data/bad.jsonl'') = Inl JSONDecodeError\<close>
proof -
  have h1: "sample_fs ''data/bad.jsonl'' = Some (File bad_text)"
    by (simp add: sample_fs_def)
  have h2: \<open>''{"id": \<newline>'' \<in> set (file_lines bad_text)\<close>
    by (simp add: file_lines_bad_text)
  have h0: "''data/bad.jsonl'' \<noteq> []"
    by simp
  from load_json_file_malformed_line
    [where fs = sample_fs and p = "''data/bad.jsonl''" and loads = json_loads,
      OF h1 h0 h2 json_loads_cut_line] h1 h2 json_loads_cut_line
  show ?thesis by simp
qed

text \<open>
  C4 (as amended). For an existing file, \<open>load_json_file\<close> hands every line of the file,
  an empty one too, to the decoder. When the decoder accepts every line it returns one
  record per line, in the order of the lines; otherwise it raises the parse error.
\<close>

theorem load_json_file_record_per_line:
  assumes "fs p = Some (File c)" and "p \<noteq> []"
  shows "load_json_file loads fs (Some p) =
           (if \<forall>l\<in>set (file_lines c). loads l \<noteq> None
            then Inr (map (\<lambda>l. the (loads l)) (file_lines c))
            else Inl JSONDecodeError)"
  using assms decode_lines_reject [of _ "file_lines c" loads]
  by (auto simp add: load_json_file_existing decode_lines_accept)

theorem load_json_file_record_per_line_witness:
  \<open>sample_fs ''data/en/a.jsonl'' = Some (File en_a_text) \<and> ''data/en/a.jsonl'' \<noteq> []
   \<and> file_lines en_a_text = [''{"id": 1, "title": "A"}\<newline>'', ''{"title": "B"}\<newline>'']
   \<and> load_json_file json_loads sample_fs (Some ''data/en/a.jsonl'')
        = Inr [JObject [(''id'', JInt 1), (''title'', JString ''A'')],
               JObject [(''title'', JString ''B'')]]\<close>
proof -
  have h1: "sample_fs ''data/en/a.jsonl'' = Some (File en_a_text)"
    by (simp add: sample_fs_def)
  have h2: "''data/en/a.jsonl'' \<noteq> []"
    by simp
  from load_json_file_record_per_line
    [where fs = sample_fs and p = "''data/en/a.jsonl''" and loads = json_loads, OF h1 h2] h1
  show ?thesis
    by (simp add: file_lines_en_a_text json_loads_a1 json_loads_a2)
qed

text \<open>
  The claim as the specification has it, that an empty line yields no record and no
  failure, is false: in \<^verbatim>\<open>data/gap.jsonl\<close> both lines that are not empty are valid JSON,
  and the empty line between them makes the load fail.
\<close>

theorem load_json_file_empty_line_counterexample:
  \<open>sample_fs ''data/gap.jsonl'' = Some (File gap_text)
   \<and> file_lines gap_text = [''{"id": 1}\<newline>'', ''\<newline>'', ''{"id": 2}\<newline>'']
   \<and> json_loads ''{"id": 1}\<newline>'' = Some (JObject [(''id'', JInt 1)])
   \<and> json_loads ''{"id": 2}\<newline>'' = Some (JObject [(''id'', JInt 2)])
   \<and> load_json_file json_loads sample_fs (Some ''data/gap.jsonl'') = Inl JSONDecodeError\<close>
proof -
  have h: "sample_fs ''data/gap.jsonl'' = Some (File gap_text)"
    by (simp add: sample_fs_def)
  then have "load_json_file json_loads sample_fs (Some ''data/gap.jsonl'')
               = decode_lines json_loads (file_lines gap_text)"
    by (simp add: load_json_file_existing)
  also have "\<dots> = Inl JSONDecodeError"
    by (simp add: file_lines_gap_text json_loads_id_1 json_loads_empty_line)
  finally show ?thesis
    using h by (simp add: file_lines_gap_text json_loads_id_1 json_loads_id_2)
qed

text \<open>
  C10. For an existing directory none of whose entries ends in \<^verbatim>\<open>.jsonl\<close>, \<open>load_dir\<close>
  returns the empty mapping, whatever the cap.
\<close>

theorem load_dir_without_jsonl:
  assumes "fs p = Some (Dir es)" and "p \<noteq> []"
    and "\<forall>e\<in>set es. \<not> endswith e ''.jsonl''"
  shows "snd (load_dir loads fs (Some p) n_files) = Inr []"
  using assms
  by (simp add: load_dir_def truthy_def path_exists_def listdir_def load_entries_skip)

theorem load_dir_without_jsonl_witness:
  "sample_fs ''data/de'' = Some (Dir [''readme.md'']) \<and> ''data/de'' \<noteq> []
   \<and> \<not> endswith ''readme.md'' ''.jsonl''
   \<and> snd (load_dir json_loads sample_fs (Some ''data/de'') (Some 1)) = Inr []"
proof -
  have h1: "sample_fs ''data/de'' = Some (Dir [''readme.md''])"
    by (simp add: sample_fs_def)
  have h3: "\<forall>e\<in>set [''readme.md'']. \<not> endswith e ''.jsonl''"
    by (simp add: endswith_def)
  have h2: "''data/de'' \<noteq> []"
    by simp
  from load_dir_without_jsonl
    [where fs = sample_fs and p = "''data/de''", OF h1 h2 h3, of json_loads "Some 1"] h1 h3
  show ?thesis by simp
qed

text \<open>
  The cap on a directory that holds nothing but record files: when every entry ends in
  \<^verbatim>\<open>.jsonl\<close> and loads, a cap \<open>k\<close> between 0 and the number of entries gives the first \<open>k\<close>
  entries of the listing, so exactly \<open>k\<close> of them.
\<close>

lemma keys_dict_set_new:
  "k \<notin> set (dict_keys d) \<Longrightarrow> dict_keys (dict_set d k v) = dict_keys d @ [k]"
  by (simp add: dict_keys_def dict_set_def update_keys)

lemma load_entries_jsonl_only:
  assumes "distinct (dict_keys acc @ es)"
    and "\<forall>e\<in>set es. endswith e ''.jsonl''"
    and "\<forall>e\<in>set es. \<exists>q recs. path_join data_dir e = Inr q
                          \<and> load_json_file loads fs (Some q) = Inr recs"
  shows "\<exists>d. load_entries loads fs data_dir (Some k) (enumerate i es) acc = Inr d
             \<and> dict_keys d = dict_keys acc @ take (nat (k - int i)) es"
  using assms
proof (induction es arbitrary: i acc)
  case Nil
  then show ?case by simp
next
  case (Cons e es)
  from Cons.prems(2) have ends: "endswith e ''.jsonl''" by simp
  from Cons.prems(3) obtain q recs where q: "path_join data_dir e = Inr q"
    and recs: "load_json_file loads fs (Some q) = Inr recs"
    by auto
  from Cons.prems(2,3) have rest: "\<forall>e\<in>set es. endswith e ''.jsonl''"
    "\<forall>e\<in>set es. \<exists>q recs. path_join data_dir e = Inr q
                          \<and> load_json_file loads fs (Some q) = Inr recs"
    by simp_all
  show ?case
  proof (cases "int i < k")
    case True
    from Cons.prems(1) have new: "e \<notin> set (dict_keys acc)" by auto
    then have keys: "dict_keys (dict_set acc e recs) = dict_keys acc @ [e]"
      by (rule keys_dict_set_new)
    with Cons.prems(1) have "distinct (dict_keys (dict_set acc e recs) @ es)" by auto
    from Cons.IH [OF this rest, of "Suc i"] obtain d where
      d: "load_entries loads fs data_dir (Some k) (enumerate (Suc i) es) (dict_set acc e recs) = Inr d"
      and dk: "dict_keys d = dict_keys (dict_set acc e recs) @ take (nat (k - int (Suc i))) es"
      by blast
    from True have "nat (k - int i) = Suc (nat (k - int (Suc i)))" by simp
    with d dk keys ends q recs True show ?thesis by simp
  next
    case False
    from Cons.prems(1) have "distinct (dict_keys acc @ es)" by auto
    from Cons.IH [OF this rest, of "Suc i"] obtain d where
      d: "load_entries loads fs data_dir (Some k) (enumerate (Suc i) es) acc = Inr d"
      and dk: "dict_keys d = dict_keys acc @ take (nat (k - int (Suc i))) es"
      by blast
    from False have "nat (k - int i) = 0" "nat (k - int (Suc i)) = 0" by simp_all
    with d dk ends False show ?thesis by simp
  qed
qed

lemma load_dir_cap_jsonl_only:
  assumes "fs p = Some (Dir es)" and "p \<noteq> []" and "distinct es"
    and "\<forall>e\<in>set es. endswith e ''.jsonl''"
    and "\<forall>e\<in>set es. \<exists>q recs. path_join (Some p) e = Inr q
                          \<and> load_json_file loads fs (Some q) = Inr recs"
    and "0 \<le> k" and "k \<le> int (length es)"
  shows "\<exists>d. snd (load_dir loads fs (Some p) (Some k)) = Inr d
             \<and> dict_keys d = take (nat k) es \<and> length d = nat k"
proof -
  from assms(3) have "distinct (dict_keys ([] :: file_map) @ es)"
    by (simp add: dict_keys_def)
  from load_entries_jsonl_only [OF this assms(4,5), of k 0] obtain d where
    d: "load_entries loads fs (Some p) (Some k) (enumerate 0 es) [] = Inr d"
    and dk: "dict_keys d = take (nat k) es"
    by (auto simp add: dict_keys_def)
  from dk have "length (dict_keys d) = length (take (nat k) es)" by simp
  with assms(6,7) have "length d = nat k" by (simp add: dict_keys_def)
  with d dk assms(1,2) show ?thesis
    by (simp add: load_dir_def truthy_def path_exists_def listdir_def)
qed

text \<open>
  C2. The cap of \<open>load_dir\<close> is compared with the position of an entry among all entries
  of the directory, not among the \<^verbatim>\<open>.jsonl\<close> files. \<^verbatim>\<open>data/en\<close> lists a text file first and
  then two valid \<^verbatim>\<open>.jsonl\<close> files: with the cap 1 nothing is loaded, with the cap 2 one
  file.
\<close>

theorem load_dir_cap_counts_every_entry:
  "listdir sample_fs (Some ''data/en'') = Inr [''notes.txt'', ''a.jsonl'', ''b.jsonl'']
   \<and> load_json_file json_loads sample_fs (Some ''data/en/a.jsonl'') = Inr en_a_records
   \<and> load_json_file json_loads sample_fs (Some ''data/en/b.jsonl'') = Inr en_b_records
   \<and> snd (load_dir json_loads sample_fs (Some ''data/en'') (Some 1)) = Inr []
   \<and> snd (load_dir json_loads sample_fs (Some ''data/en'') (Some 2))
        = Inr [(''a.jsonl'', en_a_records)]"
  by (simp add: load_en_a load_en_b listdir_en load_dir_en)

section \<open>Properties of the directory walker\<close>

text \<open>
  C5. When the root directory is not given (\<^verbatim>\<open>None\<close> or the empty path) or does not exist,
  \<open>load_all_data\<close> raises \<^verbatim>\<open>FileNotFoundError\<close> before anything is printed or loaded; in
  particular it does not return an empty mapping.
\<close>

theorem load_all_data_missing_root:
  assumes "data_dir = None \<or> data_dir = Some [] \<or> (\<exists>p. data_dir = Some p \<and> fs p = None)"
  shows "load_all_data loads fs data_dir dir_lang_options n_files = ([], Inl FileNotFoundError)
         \<and> snd (load_all_data loads fs data_dir dir_lang_options n_files) \<noteq> Inr []"
  using assms by (auto simp add: load_all_data_def truthy_def path_exists_def)

theorem load_all_data_missing_root_witness:
  "sample_fs ''nowhere'' = None
   \<and> load_all_data json_loads sample_fs (Some ''nowhere'') (OptList [''en'']) None
       = ([], Inl FileNotFoundError)
   \<and> load_all_data json_loads sample_fs None (OptList [''en'']) None
       = ([], Inl FileNotFoundError)"
proof -
  have h: "sample_fs ''nowhere'' = None"
    by (simp add: sample_fs_def)
  then have h': "Some ''nowhere'' = None \<or> Some ''nowhere'' = Some []
                 \<or> (\<exists>p. Some ''nowhere'' = Some p \<and> sample_fs p = None)"
    by simp
  from load_all_data_missing_root [OF h', of json_loads "OptList [''en'']" None]
    load_all_data_missing_root [of None sample_fs json_loads "OptList [''en'']" None] h
  show ?thesis by simp
qed

text \<open>
  C6. With an existing root directory, a \<open>dir_lang_options\<close> that is not a list (\<^verbatim>\<open>None\<close>,
  a single string, a tuple) makes \<open>load_all_data\<close> raise \<^verbatim>\<open>ValueError\<close> before anything is
  printed or loaded.
\<close>

theorem load_all_data_options_not_a_list:
  assumes "fs p = Some nd" and "p \<noteq> []"
    and "dir_lang_options = OptNone \<or> dir_lang_options = OptStr s
         \<or> dir_lang_options = OptTuple xs"
  shows "load_all_data loads fs (Some p) dir_lang_options n_files = ([], Inl ValueError)"
  using assms
  by (auto simp add: load_all_data_def truthy_def path_exists_def opt_is_list_def)

theorem load_all_data_options_not_a_list_witness:
  "sample_fs ''data'' = Some (Dir [''en'', ''de'', ''bad.jsonl'', ''gap.jsonl'']) \<and> ''data'' \<noteq> []
   \<and> load_all_data json_loads sample_fs (Some ''data'') (OptStr ''en'') None
       = ([], Inl ValueError)"
proof -
  have h: "sample_fs ''data'' = Some (Dir [''en'', ''de'', ''bad.jsonl'', ''gap.jsonl''])"
    by (simp add: sample_fs_def)
  have h2: "''data'' \<noteq> []"
    by simp
  have h3: "OptStr ''en'' = OptNone \<or> OptStr ''en'' = OptStr ''en'' \<or> OptStr ''en'' = OptTuple []"
    by simp
  from load_all_data_options_not_a_list
    [where fs = sample_fs and p = "''data''", OF h h2 h3, of json_loads None] h
  show ?thesis by simp
qed

text \<open>
  C7 (as amended). With an existing root directory, an empty list of names makes
  \<open>load_all_data\<close> raise \<^verbatim>\<open>ValueError\<close>, the error of a malformed configuration.
\<close>

theorem load_all_data_empty_list:
  assumes "fs p = Some nd" and "p \<noteq> []"
  shows "load_all_data loads fs (Some p) (OptList []) n_files = ([], Inl ValueError)"
  using assms
  by (auto simp add: load_all_data_def truthy_def path_exists_def opt_truthy_def)

theorem load_all_data_empty_list_witness:
  "sample_fs ''data/en'' = Some (Dir [''notes.txt'', ''a.jsonl'', ''b.jsonl'']) \<and> ''data/en'' \<noteq> []
   \<and> load_all_data json_loads sample_fs (Some ''data/en'') (OptList []) (Some 3)
        = ([], Inl ValueError)"
proof -
  have h1: "sample_fs ''data/en'' = Some (Dir [''notes.txt'', ''a.jsonl'', ''b.jsonl''])"
    by (simp add: sample_fs_def)
  have h2: "''data/en'' \<noteq> []"
    by simp
  from load_all_data_empty_list
    [where fs = sample_fs and p = "''data/en''", OF h1 h2, of json_loads "Some 3"] h1
  show ?thesis by simp
qed

text \<open>The error is not the file-not-found condition the specification names.\<close>

theorem load_all_data_empty_list_counterexample:
  "load_all_data json_loads sample_fs (Some ''data'') (OptList []) None = ([], Inl ValueError)
   \<and> snd (load_all_data json_loads sample_fs (Some ''data'') (OptList []) None)
       \<noteq> Inl FileNotFoundError"
  by (simp add: load_all_data_def truthy_def path_exists_def sample_fs_def opt_truthy_def)

text \<open>One turn of the loop, by the three ways it can go.\<close>

lemma path_join_Some: "path_join (Some dd) n = Inr (lang_path dd n)"
  by (simp add: lang_path_def path_join_def)

lemma dict_contains_map_of: "dict_contains k d \<longleftrightarrow> map_of d k \<noteq> None"
  by (simp add: dict_contains_def dict_keys_def map_of_eq_None_iff)

lemma map_of_dict_set: "map_of (dict_set d k v) = (map_of d)(k \<mapsto> v)"
  by (simp add: dict_set_def update_conv')

lemma keys_dict_set: "set (dict_keys (dict_set d k v)) = insert k (set (dict_keys d))"
  by (simp add: dict_set_def dict_keys_def dom_update)

lemma fst_load_dir: "fst (load_dir loads fs data_dir nf) = [Stdout (py_str data_dir)]"
  by (simp add: load_dir_def)

lemma walk_step_absent:
  assumes "\<not> is_lang_dir fs dd n"
  shows "walk_step loads fs (Some dd) nf n ld =
           ([Stdout (checking_msg (lang_path dd n) (path_exists fs (lang_path dd n))
                       (path_isdir fs (lang_path dd n))),
             Stdout (absent_msg (lang_path dd n))],
            Inr (if dict_contains n ld then ld else dict_set ld n []))"
  using assms by (auto simp add: walk_step_def Let_def path_join_Some is_lang_dir_def)

lemma walk_step_skip:
  assumes "is_lang_dir fs dd n" and "\<not> unloaded (map_of ld n)"
  shows "walk_step loads fs (Some dd) nf n ld =
           ([Stdout (checking_msg (lang_path dd n) True True), Stdout (loading_msg (lang_path dd n))],
            Inr ld)"
proof -
  from assms(2) obtain c where c: "map_of ld n = Some c" "c \<noteq> []"
    by (auto simp add: unloaded_def split: option.splits)
  then have "dict_contains n ld" by (simp add: dict_contains_map_of)
  with c assms(1) show ?thesis
    by (simp add: walk_step_def Let_def path_join_Some is_lang_dir_def dict_get_def)
qed

lemma walk_step_load:
  assumes "is_lang_dir fs dd n" and "unloaded (map_of ld n)"
  shows "walk_step loads fs (Some dd) nf n ld =
           ([Stdout (checking_msg (lang_path dd n) True True), Stdout (loading_msg (lang_path dd n)),
             Load_dir_called n, Stdout (lang_path dd n)],
            case snd (load_dir loads fs (Some (lang_path dd n)) nf) of
              Inl e \<Rightarrow> Inl e
            | Inr d \<Rightarrow> Inr (dict_set (if dict_contains n ld then ld else dict_set ld n []) n d))"
proof -
  obtain out3 r where ld: "load_dir loads fs (Some (lang_path dd n)) nf = (out3, r)"
    by (cases "load_dir loads fs (Some (lang_path dd n)) nf")
  with fst_load_dir [of loads fs "Some (lang_path dd n)" nf]
  have out3: "out3 = [Stdout (lang_path dd n)]"
    by (simp add: py_str_def)
  show ?thesis
  proof (cases "dict_contains n ld")
    case True
    with assms(2) have "dict_get ld n = Inr []"
      by (auto simp add: dict_get_def dict_contains_map_of unloaded_def split: option.splits)
    with True assms(1) ld out3 show ?thesis
      by (simp add: walk_step_def Let_def path_join_Some is_lang_dir_def)
  next
    case False
    have "dict_contains n (dict_set ld n [])"
      by (simp add: dict_contains_map_of map_of_dict_set)
    moreover have "dict_get (dict_set ld n []) n = Inr []"
      by (simp add: dict_get_def map_of_dict_set)
    ultimately show ?thesis
      using False assms(1) ld out3
      by (simp add: walk_step_def Let_def path_join_Some is_lang_dir_def)
  qed
qed

text \<open>What one turn does to the mapping.\<close>

lemma walk_step_entry:
  assumes "walk_step loads fs (Some dd) nf n ld = (out, Inr ld1)"
  shows "map_of ld1 = (map_of ld)(n \<mapsto> entry_after loads fs dd nf n (map_of ld n))"
    and "set (dict_keys ld1) = insert n (set (dict_keys ld))"
    and "is_lang_dir fs dd n \<Longrightarrow> unloaded (map_of ld n) \<Longrightarrow>
           snd (load_dir loads fs (Some (lang_path dd n)) nf) = Inr (entry_after loads fs dd nf n (map_of ld n))"
proof -
  consider (absent) "\<not> is_lang_dir fs dd n"
    | (skip) "is_lang_dir fs dd n" "\<not> unloaded (map_of ld n)"
    | (load) "is_lang_dir fs dd n" "unloaded (map_of ld n)"
    by blast
  then have "map_of ld1 = (map_of ld)(n \<mapsto> entry_after loads fs dd nf n (map_of ld n))
     \<and> set (dict_keys ld1) = insert n (set (dict_keys ld))
     \<and> (is_lang_dir fs dd n \<longrightarrow> unloaded (map_of ld n) \<longrightarrow>
           snd (load_dir loads fs (Some (lang_path dd n)) nf) = Inr (entry_after loads fs dd nf n (map_of ld n)))"
  proof cases
    case absent
    with assms have ld1: "ld1 = (if dict_contains n ld then ld else dict_set ld n [])"
      by (simp add: walk_step_absent)
    show ?thesis
    proof (cases "dict_contains n ld")
      case True
      then obtain c where "map_of ld n = Some c"
        by (auto simp add: dict_contains_map_of)
      with True ld1 absent show ?thesis
        by (auto simp add: entry_after_def dict_contains_def)
    next
      case False
      then have "map_of ld n = None" by (simp add: dict_contains_map_of)
      with False ld1 absent show ?thesis
        by (simp add: entry_after_def map_of_dict_set keys_dict_set)
    qed
  next
    case skip
    with assms have ld1: "ld1 = ld" by (simp add: walk_step_skip)
    from skip(2) obtain c where c: "map_of ld n = Some c"
      by (auto simp add: unloaded_def split: option.splits)
    then have "n \<in> set (dict_keys ld)"
      using dict_contains_map_of [of n ld] by (simp add: dict_contains_def)
    with ld1 skip c show ?thesis
      by (auto simp add: entry_after_def)
  next
    case load
    with assms obtain d where d: "snd (load_dir loads fs (Some (lang_path dd n)) nf) = Inr d"
      and ld1: "ld1 = dict_set (if dict_contains n ld then ld else dict_set ld n []) n d"
      by (auto simp add: walk_step_load split: sum.splits)
    from load d have "entry_after loads fs dd nf n (map_of ld n) = d"
      by (simp add: entry_after_def)
    with ld1 d show ?thesis
      by (auto simp add: map_of_dict_set keys_dict_set)
  qed
  then show "map_of ld1 = (map_of ld)(n \<mapsto> entry_after loads fs dd nf n (map_of ld n))"
    and "set (dict_keys ld1) = insert n (set (dict_keys ld))"
    and "is_lang_dir fs dd n \<Longrightarrow> unloaded (map_of ld n) \<Longrightarrow>
           snd (load_dir loads fs (Some (lang_path dd n)) nf) = Inr (entry_after loads fs dd nf n (map_of ld n))"
    by blast+
qed

lemma entry_after_idem:
  "entry_after loads fs dd nf n (Some (entry_after loads fs dd nf n cur))
     = entry_after loads fs dd nf n cur"
  by (auto simp add: entry_after_def unloaded_def split: option.splits sum.splits)

lemma walk_Cons_ok:
  assumes "walk loads fs data_dir nf (n # ns) ld = (out, Inr ld')"
  obtains out1 ld1 out2 where "walk_step loads fs data_dir nf n ld = (out1, Inr ld1)"
    and "walk loads fs data_dir nf ns ld1 = (out2, Inr ld')" and "out = out1 @ out2"
  using assms by (auto split: prod.splits sum.splits)

lemma walk_entries:
  assumes "walk loads fs (Some dd) nf ns ld = (out, Inr ld')"
  shows "map_of ld' n = (if n \<in> set ns then Some (entry_after loads fs dd nf n (map_of ld n))
                         else map_of ld n)"
  using assms
proof (induction ns arbitrary: ld out)
  case Nil
  then show ?case by simp
next
  case (Cons m ns)
  from Cons.prems obtain out1 ld1 out2 where
    step: "walk_step loads fs (Some dd) nf m ld = (out1, Inr ld1)"
    and rest: "walk loads fs (Some dd) nf ns ld1 = (out2, Inr ld')"
    by (rule walk_Cons_ok)
  note ld1 = walk_step_entry(1) [OF step]
  from Cons.IH [OF rest] ld1 show ?case
    by (simp add: entry_after_idem)
qed

lemma walk_keys:
  assumes "walk loads fs (Some dd) nf ns ld = (out, Inr ld')"
  shows "set (dict_keys ld') = set ns \<union> set (dict_keys ld)"
  using assms
proof (induction ns arbitrary: ld out)
  case Nil
  then show ?case by simp
next
  case (Cons m ns)
  from Cons.prems obtain out1 ld1 out2 where
    step: "walk_step loads fs (Some dd) nf m ld = (out1, Inr ld1)"
    and rest: "walk loads fs (Some dd) nf ns ld1 = (out2, Inr ld')"
    by (rule walk_Cons_ok)
  from Cons.IH [OF rest] walk_step_entry(2) [OF step] show ?case
    by simp
qed

text \<open>The whole loop.\<close>

lemma walk_step_calls:
  assumes "walk_step loads fs (Some dd) nf m ld = (out, r)"
  shows "count_list out (Load_dir_called n)
           = (if m = n \<and> is_lang_dir fs dd n \<and> unloaded (map_of ld n) then 1 else 0)"
proof -
  consider (absent) "\<not> is_lang_dir fs dd m"
    | (skip) "is_lang_dir fs dd m" "\<not> unloaded (map_of ld m)"
    | (load) "is_lang_dir fs dd m" "unloaded (map_of ld m)"
    by blast
  then show ?thesis
  proof cases
    case absent
    with assms show ?thesis by (auto simp add: walk_step_absent)
  next
    case skip
    with assms show ?thesis by (auto simp add: walk_step_skip)
  next
    case load
    with assms show ?thesis by (auto simp add: walk_step_load)
  qed
qed

lemma walk_calls:
  assumes "walk loads fs (Some dd) nf ns ld = (out, Inr ld')"
  shows "count_list out (Load_dir_called n)
           = (if is_lang_dir fs dd n \<and> unloaded (map_of ld n)
              then (if entry_after loads fs dd nf n (map_of ld n) = [] then count_list ns n
                    else if n \<in> set ns then 1 else 0)
              else 0)"
  using assms
proof (induction ns arbitrary: ld out)
  case Nil
  then show ?case by simp
next
  case (Cons m ns)
  from Cons.prems obtain out1 ld1 out2 where
    step: "walk_step loads fs (Some dd) nf m ld = (out1, Inr ld1)"
    and rest: "walk loads fs (Some dd) nf ns ld1 = (out2, Inr ld')"
    and out: "out = out1 @ out2"
    by (rule walk_Cons_ok)
  note ld1 = walk_step_entry(1) [OF step]
  note c1 = walk_step_calls [OF step, of n]
  note c2 = Cons.IH [OF rest]
  show ?case
  proof (cases "m = n")
    case True
    define E where "E = entry_after loads fs dd nf n (map_of ld n)"
    have idem: "entry_after loads fs dd nf n (Some E) = E"
      unfolding E_def by (rule entry_after_idem)
    have un: "unloaded (Some E) \<longleftrightarrow> E = []"
      by (simp add: unloaded_def)
    have keep: "\<not> unloaded (map_of ld n) \<Longrightarrow> E \<noteq> []"
      by (auto simp add: E_def entry_after_def unloaded_def split: option.splits)
    from True ld1 have ld1n: "map_of ld1 n = Some E"
      by (simp add: E_def)
    note c2 [unfolded ld1n idem un]
    then have c2': "count_list out2 (Load_dir_called n)
           = (if is_lang_dir fs dd n \<and> E = [] then count_list ns n else 0)"
      by presburger
    from c1 True have c1': "count_list out1 (Load_dir_called n)
           = (if is_lang_dir fs dd n \<and> unloaded (map_of ld n) then 1 else 0)"
      by simp
    from c1' c2' out keep True show ?thesis
      by (auto simp add: E_def [symmetric])
  next
    case False
    with c1 c2 ld1 out show ?thesis by auto
  qed
qed

lemma walk_step_says_absent:
  assumes "walk_step loads fs (Some dd) nf n ld = (out, r)" and "\<not> is_lang_dir fs dd n"
  shows "Stdout (absent_msg (lang_path dd n)) \<in> set out"
  using assms by (auto simp add: walk_step_absent)

lemma walk_says_absent:
  assumes "walk loads fs (Some dd) nf ns ld = (out, Inr ld')"
    and "n \<in> set ns" and "\<not> is_lang_dir fs dd n"
  shows "Stdout (absent_msg (lang_path dd n)) \<in> set out"
  using assms
proof (induction ns arbitrary: ld out)
  case Nil
  then show ?case by simp
next
  case (Cons m ns)
  from Cons.prems(1) obtain out1 ld1 out2 where
    step: "walk_step loads fs (Some dd) nf m ld = (out1, Inr ld1)"
    and rest: "walk loads fs (Some dd) nf ns ld1 = (out2, Inr ld')"
    and out: "out = out1 @ out2"
    by (rule walk_Cons_ok)
  show ?case
  proof (cases "m = n")
    case True
    with walk_step_says_absent [OF step] Cons.prems(3) out show ?thesis by simp
  next
    case False
    with Cons.prems(2) have "n \<in> set ns" by simp
    from Cons.IH [OF rest this Cons.prems(3)] out show ?thesis by simp
  qed
qed

lemma walk_step_succeeds:
  assumes "is_lang_dir fs dd n \<Longrightarrow> \<exists>d. snd (load_dir loads fs (Some (lang_path dd n)) nf) = Inr d"
  shows "\<exists>out ld1. walk_step loads fs (Some dd) nf n ld = (out, Inr ld1)"
proof -
  consider (absent) "\<not> is_lang_dir fs dd n"
    | (skip) "is_lang_dir fs dd n" "\<not> unloaded (map_of ld n)"
    | (load) "is_lang_dir fs dd n" "unloaded (map_of ld n)"
    by blast
  then show ?thesis
  proof cases
    case absent
    then show ?thesis by (simp add: walk_step_absent)
  next
    case skip
    then show ?thesis by (simp add: walk_step_skip)
  next
    case load
    with assms obtain d where "snd (load_dir loads fs (Some (lang_path dd n)) nf) = Inr d"
      by blast
    with load show ?thesis by (simp add: walk_step_load)
  qed
qed

lemma walk_succeeds:
  assumes "\<forall>n\<in>set ns. is_lang_dir fs dd n \<longrightarrow>
             (\<exists>d. snd (load_dir loads fs (Some (lang_path dd n)) nf) = Inr d)"
  shows "\<exists>out ld'. walk loads fs (Some dd) nf ns ld = (out, Inr ld')"
  using assms
proof (induction ns arbitrary: ld)
  case Nil
  then show ?case by simp
next
  case (Cons m ns)
  from Cons.prems obtain out1 ld1 where
    step: "walk_step loads fs (Some dd) nf m ld = (out1, Inr ld1)"
    using walk_step_succeeds [of fs dd m loads nf ld] by auto
  from Cons.prems have "\<forall>n\<in>set ns. is_lang_dir fs dd n \<longrightarrow>
             (\<exists>d. snd (load_dir loads fs (Some (lang_path dd n)) nf) = Inr d)"
    by simp
  from Cons.IH [OF this, of ld1] obtain out2 ld' where
    "walk loads fs (Some dd) nf ns ld1 = (out2, Inr ld')" by blast
  with step show ?case by simp
qed

lemma walk_loads:
  assumes "walk loads fs (Some dd) nf ns ld = (out, Inr ld')"
    and "n \<in> set ns" and "is_lang_dir fs dd n" and "unloaded (map_of ld n)"
  shows "snd (load_dir loads fs (Some (lang_path dd n)) nf)
           = Inr (entry_after loads fs dd nf n (map_of ld n))"
  using assms
proof (induction ns arbitrary: ld out)
  case Nil
  then show ?case by simp
next
  case (Cons m ns)
  from Cons.prems(1) obtain out1 ld1 out2 where
    step: "walk_step loads fs (Some dd) nf m ld = (out1, Inr ld1)"
    and rest: "walk loads fs (Some dd) nf ns ld1 = (out2, Inr ld')"
    by (rule walk_Cons_ok)
  show ?case
  proof (cases "m = n")
    case True
    with walk_step_entry(3) [OF step] Cons.prems(3,4) show ?thesis by simp
  next
    case False
    with walk_step_entry(1) [OF step] have same: "map_of ld1 n = map_of ld n" by simp
    from False Cons.prems(2) have "n \<in> set ns" by simp
    from Cons.IH [OF rest this Cons.prems(3)] Cons.prems(4) same show ?thesis by simp
  qed
qed

lemma load_all_data_valid:
  assumes "fs dd = Some nd" and "dd \<noteq> []" and "names \<noteq> []"
  shows "load_all_data loads fs (Some dd) (OptList names) nf =
           (case walk loads fs (Some dd) nf names [] of
              (out, Inl e) \<Rightarrow> (out, Inl e)
            | (out, Inr ld) \<Rightarrow>
                (out @ [Stdout (summary_msg ld), Stdout (done_msg (Some dd))], Inr ld))"
  using assms
  by (simp add: load_all_data_def truthy_def path_exists_def opt_truthy_def opt_is_list_def
        opt_items_def)

lemma load_all_data_returns:
  assumes "fs dd = Some nd" and "dd \<noteq> []" and "names \<noteq> []"
    and "load_all_data loads fs (Some dd) (OptList names) nf = (out, Inr ld)"
  obtains out0 where "walk loads fs (Some dd) nf names [] = (out0, Inr ld)"
    and "out = out0 @ [Stdout (summary_msg ld), Stdout (done_msg (Some dd))]"
  using assms(4) unfolding load_all_data_valid [where fs = fs and dd = dd, OF assms(1-3)]
  by (auto split: prod.splits sum.splits)

text \<open>Every corpus the walker returns is well formed.\<close>

lemma distinct_dict_set:
  "distinct (dict_keys d) \<Longrightarrow> distinct (dict_keys (dict_set d k v))"
  by (simp add: dict_keys_def dict_set_def distinct_update)

lemma values_dict_set:
  "(a, b) \<in> set (dict_set d k v) \<Longrightarrow> b = v \<or> (a, b) \<in> set d"
  unfolding dict_set_def by (induction d) (auto split: if_splits)

lemma wf_corpus_dict_set:
  assumes "wf_corpus ld" and "distinct (dict_keys v)"
  shows "wf_corpus (dict_set ld n v)"
  using assms values_dict_set [of _ _ ld n v]
  by (fastforce simp add: wf_corpus_def distinct_dict_set list_all_iff)

lemma load_entries_distinct:
  "distinct (dict_keys acc) \<Longrightarrow> load_entries loads fs data_dir nf xs acc = Inr d \<Longrightarrow>
   distinct (dict_keys d)"
proof (induction xs arbitrary: acc)
  case Nil
  then show ?case by simp
next
  case (Cons x xs)
  obtain k fname where x: "x = (k, fname)" by (cases x)
  from Cons.prems(2) Cons.IH [OF Cons.prems(1)]
    Cons.IH [OF distinct_dict_set [OF Cons.prems(1)]]
  show ?case
    by (auto simp add: x split: if_splits sum.splits)
qed

lemma load_dir_distinct:
  "snd (load_dir loads fs data_dir nf) = Inr d \<Longrightarrow> distinct (dict_keys d)"
  using load_entries_distinct [of "[]" loads fs data_dir nf _ d]
  by (auto simp add: load_dir_def dict_keys_def split: if_splits sum.splits)

lemma walk_step_wf:
  assumes "walk_step loads fs (Some dd) nf n ld = (out, Inr ld1)" and "wf_corpus ld"
  shows "wf_corpus ld1"
proof -
  have empty: "wf_corpus (if dict_contains n ld then ld else dict_set ld n [])"
    using assms(2) by (simp add: wf_corpus_dict_set dict_keys_def)
  consider (absent) "\<not> is_lang_dir fs dd n"
    | (skip) "is_lang_dir fs dd n" "\<not> unloaded (map_of ld n)"
    | (load) "is_lang_dir fs dd n" "unloaded (map_of ld n)"
    by blast
  then show ?thesis
  proof cases
    case absent
    with assms(1) empty show ?thesis by (simp add: walk_step_absent)
  next
    case skip
    with assms show ?thesis by (simp add: walk_step_skip)
  next
    case load
    with assms(1) obtain d where d: "snd (load_dir loads fs (Some (lang_path dd n)) nf) = Inr d"
      and ld1: "ld1 = dict_set (if dict_contains n ld then ld else dict_set ld n []) n d"
      by (auto simp add: walk_step_load split: sum.splits)
    from load_dir_distinct [OF d] empty ld1 show ?thesis
      by (simp only: wf_corpus_dict_set)
  qed
qed

lemma walk_wf:
  assumes "walk loads fs (Some dd) nf ns ld = (out, Inr ld')" and "wf_corpus ld"
  shows "wf_corpus ld'"
  using assms
proof (induction ns arbitrary: ld out)
  case Nil
  then show ?case by simp
next
  case (Cons m ns)
  from Cons.prems(1) obtain out1 ld1 out2 where
    step: "walk_step loads fs (Some dd) nf m ld = (out1, Inr ld1)"
    and rest: "walk loads fs (Some dd) nf ns ld1 = (out2, Inr ld')"
    by (rule walk_Cons_ok)
  from Cons.IH [OF rest walk_step_wf [OF step Cons.prems(2)]] show ?case .
qed

lemma load_all_data_wf:
  assumes "load_all_data loads fs data_dir dir_lang_options nf = (out, Inr ld)"
  shows "wf_corpus ld"
proof -
  from assms obtain dd where dd: "data_dir = Some dd"
    by (cases data_dir) (auto simp add: load_all_data_def truthy_def)
  from assms dd obtain out0 where
    "walk loads fs (Some dd) nf (opt_items dir_lang_options) [] = (out0, Inr ld)"
    by (auto simp add: load_all_data_def split: if_splits prod.splits sum.splits)
  from walk_wf [OF this] show ?thesis
    by (simp add: wf_corpus_def dict_keys_def)
qed

text \<open>The walker on the sample directory.\<close>

lemma lang_path_en: "lang_path ''data'' ''en'' = ''data/en''"
  by (simp add: lang_path_def path_join_def)
lemma lang_path_fr: "lang_path ''data'' ''fr'' = ''data/fr''"
  by (simp add: lang_path_def path_join_def)
lemma lang_path_de: "lang_path ''data'' ''de'' = ''data/de''"
  by (simp add: lang_path_def path_join_def)

lemma is_lang_dir_en: "is_lang_dir sample_fs ''data'' ''en''"
  by (simp add: is_lang_dir_def lang_path_en path_exists_def path_isdir_def sample_fs_def)
lemma is_lang_dir_de: "is_lang_dir sample_fs ''data'' ''de''"
  by (simp add: is_lang_dir_def lang_path_de path_exists_def path_isdir_def sample_fs_def)
lemma not_is_lang_dir_fr: "\<not> is_lang_dir sample_fs ''data'' ''fr''"
  by (simp add: is_lang_dir_def lang_path_fr path_exists_def path_isdir_def sample_fs_def)

lemma fr_missing:
  "\<not> path_exists sample_fs ''data/fr''" "\<not> path_isdir sample_fs ''data/fr''"
  by (simp_all add: path_exists_def path_isdir_def sample_fs_def)

lemma sample_root: "sample_fs ''data'' = Some (Dir [''en'', ''de'', ''bad.jsonl'', ''gap.jsonl''])"
  by (simp add: sample_fs_def)

lemma load_dir_en_all:
  "snd (load_dir json_loads sample_fs (Some ''data/en'') None)
     = Inr [(''a.jsonl'', en_a_records), (''b.jsonl'', en_b_records)]"
  by (simp add: load_dir_en)

lemma load_dir_de:
  "snd (load_dir json_loads sample_fs (Some ''data/de'') nf) = Inr []"
  by (simp add: load_dir_def truthy_def path_exists_def listdir_def sample_fs_def
        load_entries_skip endswith_def)

lemma walk_en_fr:
  "walk json_loads sample_fs (Some ''data'') None [''en'', ''fr''] []
     = ([Stdout (checking_msg ''data/en'' True True), Stdout (loading_msg ''data/en''),
         Load_dir_called ''en'', Stdout ''data/en'',
         Stdout (checking_msg ''data/fr'' False False), Stdout (absent_msg ''data/fr'')],
        Inr sample_corpus)"
  by (simp add: walk_step_load walk_step_absent is_lang_dir_en not_is_lang_dir_fr unloaded_def
        lang_path_en lang_path_fr load_dir_en_all dict_contains_def dict_keys_def dict_set_def
        sample_corpus_def fr_missing)

lemma walk_de_de:
  "walk json_loads sample_fs (Some ''data'') None [''de'', ''de''] []
     = ([Stdout (checking_msg ''data/de'' True True), Stdout (loading_msg ''data/de''),
         Load_dir_called ''de'', Stdout ''data/de'',
         Stdout (checking_msg ''data/de'' True True), Stdout (loading_msg ''data/de''),
         Load_dir_called ''de'', Stdout ''data/de''],
        Inr [(''de'', [])])"
  by (simp add: walk_step_load is_lang_dir_de unloaded_def
        lang_path_de load_dir_de dict_contains_def dict_keys_def dict_set_def)

lemma walk_en_en:
  "walk json_loads sample_fs (Some ''data'') None [''en'', ''en''] []
     = ([Stdout (checking_msg ''data/en'' True True), Stdout (loading_msg ''data/en''),
         Load_dir_called ''en'', Stdout ''data/en'',
         Stdout (checking_msg ''data/en'' True True), Stdout (loading_msg ''data/en'')],
        Inr [(''en'', [(''a.jsonl'', en_a_records), (''b.jsonl'', en_b_records)])])"
  by (simp add: walk_step_load walk_step_skip is_lang_dir_en unloaded_def
        lang_path_en load_dir_en_all dict_contains_def dict_keys_def dict_set_def)

text \<open>
  C8. In a call with an existing root directory and a list of names that is not empty, a
  name whose subdirectory is missing or is not a directory never makes the run fail: the
  run returns whenever every subdirectory that is there loads. The mapping it returns has
  exactly the given names as its keys, and each name without a directory is mapped to the
  empty mapping, with the diagnostic printed and no call of \<open>load_dir\<close> for it.
\<close>

theorem load_all_data_entry_for_every_name:
  assumes "fs dd = Some nd" and "dd \<noteq> []" and "names \<noteq> []"
  shows "((\<forall>n\<in>set names. is_lang_dir fs dd n \<longrightarrow>
             (\<exists>d. snd (load_dir loads fs (Some (lang_path dd n)) nf) = Inr d))
          \<longrightarrow> (\<exists>out ld. load_all_data loads fs (Some dd) (OptList names) nf = (out, Inr ld)))
       \<and> (\<forall>out ld. load_all_data loads fs (Some dd) (OptList names) nf = (out, Inr ld) \<longrightarrow>
            set (dict_keys ld) = set names
            \<and> (\<forall>n\<in>set names. \<not> is_lang_dir fs dd n \<longrightarrow>
                  dict_get ld n = Inr []
                  \<and> Stdout (absent_msg (lang_path dd n)) \<in> set out
                  \<and> count_list out (Load_dir_called n) = 0))"
proof (intro conjI impI allI)
  assume "\<forall>n\<in>set names. is_lang_dir fs dd n \<longrightarrow>
             (\<exists>d. snd (load_dir loads fs (Some (lang_path dd n)) nf) = Inr d)"
  from walk_succeeds [OF this, of "[]"]
  show "\<exists>out ld. load_all_data loads fs (Some dd) (OptList names) nf = (out, Inr ld)"
    by (auto simp add: load_all_data_valid [where fs = fs and dd = dd, OF assms])
next
  fix out ld
  assume "load_all_data loads fs (Some dd) (OptList names) nf = (out, Inr ld)"
  with assms obtain out0 where w: "walk loads fs (Some dd) nf names [] = (out0, Inr ld)"
    and out: "out = out0 @ [Stdout (summary_msg ld), Stdout (done_msg (Some dd))]"
    by (rule load_all_data_returns)
  from walk_keys [OF w] show "set (dict_keys ld) = set names"
    by (simp add: dict_keys_def)
  show "\<forall>n\<in>set names. \<not> is_lang_dir fs dd n \<longrightarrow>
          dict_get ld n = Inr []
          \<and> Stdout (absent_msg (lang_path dd n)) \<in> set out
          \<and> count_list out (Load_dir_called n) = 0"
  proof (intro ballI impI)
    fix n
    assume n: "n \<in> set names" and absent: "\<not> is_lang_dir fs dd n"
    from walk_entries [OF w, of n] n absent have "dict_get ld n = Inr []"
      by (simp add: dict_get_def entry_after_def)
    moreover from walk_says_absent [OF w n absent] out
    have "Stdout (absent_msg (lang_path dd n)) \<in> set out" by simp
    moreover from walk_calls [OF w, of n] absent out
    have "count_list out (Load_dir_called n) = 0" by simp
    ultimately show "dict_get ld n = Inr []
          \<and> Stdout (absent_msg (lang_path dd n)) \<in> set out
          \<and> count_list out (Load_dir_called n) = 0" by simp
  qed
qed

theorem load_all_data_entry_for_every_name_witness:
  "sample_fs ''data'' = Some (Dir [''en'', ''de'', ''bad.jsonl'', ''gap.jsonl'']) \<and> ''data'' \<noteq> []
   \<and> [''en'', ''fr''] \<noteq> []
   \<and> \<not> is_lang_dir sample_fs ''data'' ''fr''
   \<and> snd (load_all_data json_loads sample_fs (Some ''data'') (OptList [''en'', ''fr'']) None)
       = Inr sample_corpus
   \<and> set (dict_keys sample_corpus) = {''en'', ''fr''}
   \<and> dict_get sample_corpus ''fr'' = Inr []
   \<and> Stdout (absent_msg ''data/fr'')
       \<in> set (fst (load_all_data json_loads sample_fs (Some ''data'') (OptList [''en'', ''fr'']) None))"
proof -
  let ?run = "load_all_data json_loads sample_fs (Some ''data'') (OptList [''en'', ''fr'']) None"
  have h2: "''data'' \<noteq> []" by simp
  have h3: "[''en'', ''fr''] \<noteq> []" by simp
  have snd_run: "snd ?run = Inr sample_corpus"
    by (simp add: load_all_data_valid [where fs = sample_fs and dd = "''data''", OF sample_root]
          walk_en_fr del: walk.simps)
  then have run: "?run = (fst ?run, Inr sample_corpus)"
    by (metis prod.collapse)
  from load_all_data_entry_for_every_name
    [where fs = sample_fs and dd = "''data''", OF sample_root h2 h3, of json_loads None] run
  have keys: "set (dict_keys sample_corpus) = set [''en'', ''fr'']"
    and fr: "\<forall>n\<in>set [''en'', ''fr'']. \<not> is_lang_dir sample_fs ''data'' n \<longrightarrow>
                  dict_get sample_corpus n = Inr []
                  \<and> Stdout (absent_msg (lang_path ''data'' n)) \<in> set (fst ?run)
                  \<and> count_list (fst ?run) (Load_dir_called n) = 0"
    by blast+
  from fr not_is_lang_dir_fr have "dict_get sample_corpus ''fr'' = Inr []"
    and "Stdout (absent_msg ''data/fr'') \<in> set (fst ?run)"
    by (simp_all add: lang_path_fr)
  with keys snd_run sample_root not_is_lang_dir_fr show ?thesis
    by simp
qed

text \<open>
  C9 (as amended). In a call that returns, the entry of every name is what \<open>load_dir\<close>
  returns for its subdirectory (the empty mapping when there is no such directory), which
  is the result of the first load. \<open>load_dir\<close> is called once for a name whose load gave a
  mapping that is not empty, however often the name occurs; a name whose load gave the
  empty mapping is loaded again at each of its occurrences.
\<close>

theorem load_all_data_loads_per_name:
  assumes "fs dd = Some nd" and "dd \<noteq> []"
    and "load_all_data loads fs (Some dd) (OptList names) nf = (out, Inr ld)"
    and "n \<in> set names"
  shows "\<exists>d. dict_get ld n = Inr d
           \<and> (is_lang_dir fs dd n \<longrightarrow> snd (load_dir loads fs (Some (lang_path dd n)) nf) = Inr d)
           \<and> (\<not> is_lang_dir fs dd n \<longrightarrow> d = [])
           \<and> count_list out (Load_dir_called n)
               = (if \<not> is_lang_dir fs dd n then 0 else if d = [] then count_list names n else 1)"
proof -
  from assms(4) have ne: "names \<noteq> []" by auto
  from assms(1,2) ne assms(3) obtain out0 where
    w: "walk loads fs (Some dd) nf names [] = (out0, Inr ld)"
    and out: "out = out0 @ [Stdout (summary_msg ld), Stdout (done_msg (Some dd))]"
    by (rule load_all_data_returns)
  let ?d = "entry_after loads fs dd nf n None"
  from walk_entries [OF w, of n] assms(4) have get: "dict_get ld n = Inr ?d"
    by (simp add: dict_get_def)
  have loaded: "snd (load_dir loads fs (Some (lang_path dd n)) nf) = Inr ?d" if "is_lang_dir fs dd n"
    using walk_loads [OF w assms(4) that] by (simp add: unloaded_def)
  have absent: "?d = []" if "\<not> is_lang_dir fs dd n"
    using that by (simp add: entry_after_def)
  from walk_calls [OF w, of n] out assms(4)
  have "count_list out (Load_dir_called n)
          = (if \<not> is_lang_dir fs dd n then 0 else if ?d = [] then count_list names n else 1)"
    by (simp add: unloaded_def)
  with get loaded absent show ?thesis by blast
qed

theorem load_all_data_loads_per_name_witness:
  "sample_fs ''data'' = Some (Dir [''en'', ''de'', ''bad.jsonl'', ''gap.jsonl'']) \<and> ''data'' \<noteq> []
   \<and> snd (load_all_data json_loads sample_fs (Some ''data'') (OptList [''en'', ''en'']) None)
       = Inr [(''en'', [(''a.jsonl'', en_a_records), (''b.jsonl'', en_b_records)])]
   \<and> is_lang_dir sample_fs ''data'' ''en''
   \<and> snd (load_dir json_loads sample_fs (Some (lang_path ''data'' ''en'')) None)
       = Inr [(''a.jsonl'', en_a_records), (''b.jsonl'', en_b_records)]
   \<and> count_list (fst (load_all_data json_loads sample_fs (Some ''data'') (OptList [''en'', ''en'']) None))
        (Load_dir_called ''en'') = 1"
proof -
  let ?run = "load_all_data json_loads sample_fs (Some ''data'') (OptList [''en'', ''en'']) None"
  let ?ld = "[(''en'', [(''a.jsonl'', en_a_records), (''b.jsonl'', en_b_records)])]"
  have h2: "''data'' \<noteq> []" by simp
  have snd_run: "snd ?run = Inr ?ld"
    by (simp add: load_all_data_valid [where fs = sample_fs and dd = "''data''", OF sample_root]
          walk_en_en del: walk.simps)
  then have h3: "?run = (fst ?run, Inr ?ld)"
    by (metis prod.collapse)
  have h4: "''en'' \<in> set [''en'', ''en'']" by simp
  from load_all_data_loads_per_name
    [where fs = sample_fs and dd = "''data''", OF sample_root h2 h3 h4]
  obtain d where d: "dict_get ?ld ''en'' = Inr d"
    and cnt: "count_list (fst ?run) (Load_dir_called ''en'')
      = (if \<not> is_lang_dir sample_fs ''data'' ''en'' then 0
         else if d = [] then count_list [''en'', ''en''] ''en'' else 1)"
    by blast
  from d have "d = [(''a.jsonl'', en_a_records), (''b.jsonl'', en_b_records)]"
    by (simp add: dict_get_def)
  with cnt have "count_list (fst ?run) (Load_dir_called ''en'') = 1"
    by (simp add: is_lang_dir_en)
  with snd_run sample_root is_lang_dir_en show ?thesis
    by (simp add: lang_path_en load_dir_en_all)
qed

text \<open>
  The claim as the specification has it, at most one call per name, is false:
  \<^verbatim>\<open>data/de\<close> holds no \<^verbatim>\<open>.jsonl\<close> file, its load gives the empty mapping, and the walker
  takes the empty entry for a name not yet loaded.
\<close>

theorem load_all_data_reload_counterexample:
  "snd (load_all_data json_loads sample_fs (Some ''data'') (OptList [''de'', ''de'']) None)
     = Inr [(''de'', [])]
   \<and> count_list (fst (load_all_data json_loads sample_fs (Some ''data'') (OptList [''de'', ''de'']) None))
        (Load_dir_called ''de'') = 2"
  by (simp add: load_all_data_valid [where fs = sample_fs and dd = "''data''", OF sample_root]
        walk_de_de del: walk.simps)

section \<open>Properties of the key auditor\<close>

lemma for_each_append:
  "for_each (xs @ ys) body s =
     (case for_each xs body s of Inl e \<Rightarrow> Inl e | Inr s' \<Rightarrow> for_each ys body s')"
  by (induction xs arbitrary: s) (auto split: sum.splits)

lemma for_each_concat:
  "for_each (concat xss) body s = for_each xss (\<lambda>xs s'. for_each xs body s') s"
  by (induction xss arbitrary: s) (auto simp add: for_each_append split: sum.splits)

lemma for_each_cong:
  "(\<And>x s. x \<in> set xs \<Longrightarrow> f x s = g x s) \<Longrightarrow> for_each xs f s = for_each xs g s"
  by (induction xs arbitrary: s) (auto split: sum.splits)

lemma for_each_lookup:
  "(\<And>k v. (k, v) \<in> set xs \<Longrightarrow> map_of d k = Some v) \<Longrightarrow>
   for_each (map fst xs) (\<lambda>k s. case dict_get d k of Inl e \<Rightarrow> Inl e | Inr v \<Rightarrow> f v s) s0
     = for_each (map snd xs) f s0"
proof (induction xs arbitrary: s0)
  case Nil
  then show ?case by simp
next
  case (Cons x xs)
  obtain k v where x: "x = (k, v)" by (cases x)
  with Cons.prems have "map_of d k = Some v" by simp
  then have get: "dict_get d k = Inr v" by (simp add: dict_get_def)
  have "for_each (map fst xs) (\<lambda>k s. case dict_get d k of Inl e \<Rightarrow> Inl e | Inr v \<Rightarrow> f v s) s'
          = for_each (map snd xs) f s'" for s'
    using Cons.prems by (intro Cons.IH) simp
  with get x show ?case by (simp split: sum.splits)
qed

lemma for_each_map:
  "for_each (map h xs) body s = for_each xs (\<lambda>x s'. body (h x) s') s"
  by (induction xs arbitrary: s) (auto split: sum.splits)

lemma for_each_dict:
  assumes "distinct (dict_keys d)"
  shows "for_each (dict_keys d) (\<lambda>k s. case dict_get d k of Inl e \<Rightarrow> Inl e | Inr v \<Rightarrow> f v s) s0
           = for_each (map snd d) f s0"
  unfolding dict_keys_def
  using assms by (intro for_each_lookup) (simp add: dict_keys_def)

lemma for_each_entry_flat:
  assumes "wf_corpus loaded_data"
  shows "for_each_entry loaded_data body s = for_each (corpus_entries loaded_data) body s"
proof -
  have inner: "for_each (dict_keys files)
                 (\<lambda>filename s2. case dict_get files filename of Inl e \<Rightarrow> Inl e
                                 | Inr entries \<Rightarrow> for_each entries body s2) s1
               = for_each (concat (map snd files)) body s1"
    if "files \<in> set (map snd loaded_data)" for files s1
  proof -
    from that assms have "distinct (dict_keys files)"
      by (auto simp add: wf_corpus_def list_all_iff)
    then show ?thesis
      by (simp add: for_each_dict [where f = "\<lambda>entries s2. for_each entries body s2"] for_each_concat)
  qed
  from assms have "distinct (dict_keys loaded_data)"
    by (simp add: wf_corpus_def)
  then have "for_each_entry loaded_data body s
               = for_each (map snd loaded_data)
                   (\<lambda>files s1. for_each (dict_keys files)
                      (\<lambda>filename s2. case dict_get files filename of Inl e \<Rightarrow> Inl e
                                      | Inr entries \<Rightarrow> for_each entries body s2) s1) s"
    unfolding for_each_entry_def by (rule for_each_dict)
  also have "\<dots> = for_each (map snd loaded_data)
                      (\<lambda>files s1. for_each (concat (map snd files)) body s1) s"
    by (rule for_each_cong) (rule inner)
  also have "\<dots> = for_each (corpus_entries loaded_data) body s"
    by (simp add: corpus_entries_def for_each_concat for_each_map)
  finally show ?thesis .
qed

lemma for_each_keys:
  "for_each es (\<lambda>entry s. case entry_keys entry of Inl e \<Rightarrow> Inl e
                           | Inr ks \<Rightarrow> Inr (s \<union> g (set ks))) S
     = (if \<forall>e\<in>set es. is_object e then Inr (S \<union> (\<Union>e\<in>set es. g (keys_of e)))
        else Inl AttributeError)"
proof (induction es arbitrary: S)
  case Nil
  then show ?case by simp
next
  case (Cons e es)
  show ?case
  proof (cases e)
    case (JObject kvs)
    then show ?thesis
      using Cons.IH by (auto simp add: entry_keys_def is_object_def keys_of_def)
  qed (simp_all add: entry_keys_def is_object_def)
qed

text \<open>
  C1. On a corpus whose records are JSON objects, \<open>identify_missing_keys\<close> returns the union
  of the keys of all records and, as the missing keys, exactly the keys that some record
  has and some record lacks. The missing keys are among all keys, and \<^verbatim>\<open>"id"\<close> is in both
  sets as soon as one record lacks it and another has it.
\<close>

theorem identify_missing_keys_sets:
  assumes "wf_corpus loaded_data"
    and "\<forall>e\<in>set (corpus_entries loaded_data). is_object e"
  shows "\<exists>all_keys missing.
           identify_missing_keys loaded_data = Inr (all_keys, missing)
           \<and> all_keys = (\<Union>e\<in>set (corpus_entries loaded_data). keys_of e)
           \<and> missing = {k. (\<exists>e\<in>set (corpus_entries loaded_data). k \<in> keys_of e)
                            \<and> (\<exists>e\<in>set (corpus_entries loaded_data). k \<notin> keys_of e)}
           \<and> missing \<subseteq> all_keys
           \<and> (\<forall>e1\<in>set (corpus_entries loaded_data). \<forall>e2\<in>set (corpus_entries loaded_data).
                 ''id'' \<notin> keys_of e1 \<and> ''id'' \<in> keys_of e2 \<longrightarrow> ''id'' \<in> missing \<and> ''id'' \<in> all_keys)"
proof -
  let ?E = "set (corpus_entries loaded_data)"
  let ?A = "\<Union>e\<in>?E. keys_of e"
  let ?M = "{k. (\<exists>e\<in>?E. k \<in> keys_of e) \<and> (\<exists>e\<in>?E. k \<notin> keys_of e)}"
  have first: "for_each_entry loaded_data
                 (\<lambda>entry set_of_keys. case entry_keys entry of Inl e \<Rightarrow> Inl e
                    | Inr ks \<Rightarrow> Inr (set_of_keys \<union> set ks)) {} = Inr ?A"
    using assms
    by (simp add: for_each_entry_flat for_each_keys [where g = "\<lambda>K. K"])
  have second: "for_each_entry loaded_data
                 (\<lambda>entry missing_keys. case entry_keys entry of Inl e \<Rightarrow> Inl e
                    | Inr ks \<Rightarrow> Inr (missing_keys \<union> Set.filter (\<lambda>key. key \<notin> set ks) ?A)) {}
                = Inr (\<Union>e\<in>?E. Set.filter (\<lambda>key. key \<notin> keys_of e) ?A)"
    using assms
    by (simp add: for_each_entry_flat
          for_each_keys [where g = "\<lambda>K. Set.filter (\<lambda>key. key \<notin> K) ?A"])
  have "(\<Union>e\<in>?E. Set.filter (\<lambda>key. key \<notin> keys_of e) ?A) = ?M"
    by auto
  with first second have "identify_missing_keys loaded_data = Inr (?A, ?M)"
    by (simp add: identify_missing_keys_def)
  moreover have "?M \<subseteq> ?A" by auto
  ultimately show ?thesis by auto
qed

lemma identify_missing_keys_not_object:
  assumes "wf_corpus loaded_data"
    and "e \<in> set (corpus_entries loaded_data)" and "\<not> is_object e"
  shows "identify_missing_keys loaded_data = Inl AttributeError"
  using assms
  by (auto simp add: identify_missing_keys_def for_each_entry_flat for_each_keys [where g = "\<lambda>K. K"])

lemma wf_sample_corpus: "wf_corpus sample_corpus"
  by (simp add: wf_corpus_def sample_corpus_def dict_keys_def)

lemma entries_sample_corpus: "corpus_entries sample_corpus = en_a_records @ en_b_records"
  by (simp add: corpus_entries_def sample_corpus_def)

theorem identify_missing_keys_sets_witness:
  "wf_corpus sample_corpus
   \<and> corpus_entries sample_corpus
        = [JObject [(''id'', JInt 1), (''title'', JString ''A'')],
           JObject [(''title'', JString ''B'')],
           JObject [(''id'', JInt 3), (''title'', JString ''C'')]]
   \<and> identify_missing_keys sample_corpus = Inr ({''id'', ''title''}, {''id''})"
proof -
  have es: "corpus_entries sample_corpus
        = [JObject [(''id'', JInt 1), (''title'', JString ''A'')],
           JObject [(''title'', JString ''B'')],
           JObject [(''id'', JInt 3), (''title'', JString ''C'')]]"
    by (simp add: entries_sample_corpus en_a_records_def en_b_records_def)
  have objs: "\<forall>e\<in>set (corpus_entries sample_corpus). is_object e"
    by (simp add: es is_object_def)
  from identify_missing_keys_sets [OF wf_sample_corpus objs]
  obtain a m where r: "identify_missing_keys sample_corpus = Inr (a, m)"
    and a: "a = (\<Union>e\<in>set (corpus_entries sample_corpus). keys_of e)"
    and m: "m = {k. (\<exists>e\<in>set (corpus_entries sample_corpus). k \<in> keys_of e)
                    \<and> (\<exists>e\<in>set (corpus_entries sample_corpus). k \<notin> keys_of e)}"
    by blast
  from a have "a = {''id'', ''title''}"
    by (auto simp add: es keys_of_def dict_keys_def)
  moreover from m have "m = {''id''}"
    by (auto simp add: es keys_of_def dict_keys_def)
  ultimately show ?thesis
    using r es wf_sample_corpus by simp
qed

end
